theory Spec2Isabelle
  imports Main
begin

section \<open>The Redis-backed storage delegate of \<^verbatim>\<open>jupyter_health/ch_client.py\<close>\<close>

text \<open>
  The class \<^verbatim>\<open>RedisStorageDelegate\<close> keeps one hash record of a Redis database and an
  optional in-memory copy of it. A dict is a map from strings to strings (the connection
  is opened with \<^verbatim>\<open>decode_responses=True\<close>). Python dicts are objects: \<^verbatim>\<open>keys()\<close> and
  \<^verbatim>\<open>items()\<close> hand out views that refer to the dict object, and \<^verbatim>\<open>_load\<close> binds
  \<^verbatim>\<open>_cached_value\<close> to a new dict object. The model therefore keeps the dict objects in
  an object store indexed by addresses, and the delegate holds an address.
\<close>

subsection \<open>Data\<close>

type_synonym dict = "string \<rightharpoonup> string"

type_synonym addr = nat

text \<open>
  The exceptions that can leave the delegate's methods. \<open>TypeError n\<close> is the interpreter's
  ``takes 0 positional arguments but \<open>n\<close> were given''.
\<close>

datatype error =
    NotImplementedError string
  | TypeError nat
  | DataError string
  | KeyError string
  | AttributeError

text \<open>The commands that reach the Redis server, in the order they are sent.\<close>

datatype redis_cmd = HGETALL string | HSET string dict

text \<open>
  Everything outside the delegate object: the hashes of the Redis database by record name,
  the dict objects of the Python process (\<open>fresh\<close> is the next unused address), and the
  commands sent so far.
\<close>

record world =
  redis :: "string \<rightharpoonup> dict"
  heap :: "addr \<Rightarrow> dict"
  fresh :: addr
  wire :: "redis_cmd list"

text \<open>The fields of a delegate; \<^verbatim>\<open>self.redis\<close> is the connection to \<open>redis\<close> of the world.\<close>

record delegate =
  name :: string
  cached_value :: "addr option"

text \<open>\<^verbatim>\<open>__init__\<close>: nothing is cached at construction.\<close>

definition init :: "string \<Rightarrow> delegate" where
  "init n = \<lparr>name = n, cached_value = None\<rparr>"

subsection \<open>The two primitives of the remote store\<close>

text \<open>
  Modelled from the spec: the Redis client library is not part of the sources. The spec
  asks of the remote store two primitives, ``read all fields of record X as a map'' and
  ``write/merge a map of fields into record X''. These are \<^verbatim>\<open>hgetall\<close> and
  \<^verbatim>\<open>hset(name, mapping=...)\<close> of the client: a record that does not exist reads as the
  empty map, a write sets the given fields and leaves every other field of the record as
  it is, and the client refuses a write with no field at all before anything is sent
  (its message is written here without the quotation marks around the command name).
\<close>

definition record_of :: "world \<Rightarrow> string \<Rightarrow> dict" where
  "record_of w n = (case redis w n of None \<Rightarrow> Map.empty | Some h \<Rightarrow> h)"

definition hgetall :: "string \<Rightarrow> world \<Rightarrow> dict \<times> world" where
  "hgetall n w = (record_of w n, w\<lparr>wire := wire w @ [HGETALL n]\<rparr>)"

definition hset :: "string \<Rightarrow> dict \<Rightarrow> world \<Rightarrow> (error + unit) \<times> world" where
  "hset n m w =
     (if dom m = {} then (Inl (DataError ''hset with no key value pairs''), w)
      else (Inr (), w\<lparr>redis := (redis w)(n \<mapsto> record_of w n ++ m),
                       wire := wire w @ [HSET n m]\<rparr>))"

subsection \<open>The methods of the delegate\<close>

text \<open>
  \<^verbatim>\<open>_load\<close>: the dict returned by \<^verbatim>\<open>hgetall\<close> is a new object, and the cache is bound
  to it.
\<close>

definition load :: "delegate \<Rightarrow> world \<Rightarrow> delegate \<times> world" where
  "load d w =
     (let (m, w1) = hgetall (name d) w;
          a = fresh w1
      in (d\<lparr>cached_value := Some a\<rparr>, w1\<lparr>heap := (heap w1)(a := m), fresh := Suc a\<rparr>))"

text \<open>\<^verbatim>\<open>_save\<close>: writes the cached dict when there is one.\<close>

definition save :: "delegate \<Rightarrow> world \<Rightarrow> (error + unit) \<times> world" where
  "save d w =
     (case cached_value d of
        None \<Rightarrow> (Inr (), w)
      | Some a \<Rightarrow> hset (name d) (heap w a) w)"

text \<open>
  \<^verbatim>\<open>clear_all_values\<close> is declared with no parameter at all, not even \<^verbatim>\<open>self\<close>. The
  interpreter checks the number of positional arguments before the body runs.
\<close>

definition clear_all_values :: "delegate list \<Rightarrow> error + unit" where
  "clear_all_values args =
     (if args \<noteq> [] then Inl (TypeError (length args))
      else Inl (NotImplementedError ''Clear all values not allowed''))"

text \<open>
  The call \<^verbatim>\<open>d.clear_all_values()\<close> on an instance: Python passes the instance as the
  first positional argument.
\<close>

definition call_clear_all_values ::
    "delegate \<Rightarrow> world \<Rightarrow> (error + unit) \<times> delegate \<times> world" where
  "call_clear_all_values d w = (clear_all_values [d], d, w)"

text \<open>The property \<^verbatim>\<open>_secret_value\<close>: loads when nothing is cached, returns the cache.\<close>

definition secret_value :: "delegate \<Rightarrow> world \<Rightarrow> addr option \<times> delegate \<times> world" where
  "secret_value d w =
     (let (d1, w1) = (if cached_value d = None then load d w else (d, w))
      in (cached_value d1, d1, w1))"

text \<open>\<^verbatim>\<open>get_secure_value\<close>: \<^verbatim>\<open>dict.get(key, default)\<close> on the cached dict.\<close>

definition get_secure_value ::
    "string \<Rightarrow> string option \<Rightarrow> delegate \<Rightarrow> world
       \<Rightarrow> (error + string option) \<times> delegate \<times> world" where
  "get_secure_value key dflt d w =
     (case secret_value d w of
        (None, d1, w1) \<Rightarrow> (Inl AttributeError, d1, w1)
      | (Some a, d1, w1) \<Rightarrow>
          (Inr (case heap w1 a key of None \<Rightarrow> dflt | Some v \<Rightarrow> Some v), d1, w1))"

text \<open>
  \<^verbatim>\<open>set_secure_value\<close>: load, store the item in the cached dict object, save.
\<close>

definition set_secure_value ::
    "string \<Rightarrow> string \<Rightarrow> delegate \<Rightarrow> world \<Rightarrow> (error + unit) \<times> delegate \<times> world" where
  "set_secure_value key val d w =
     (let (d1, w1) = load d w
      in case secret_value d1 w1 of
           (None, d2, w2) \<Rightarrow> (Inl AttributeError, d2, w2)
         | (Some a, d2, w2) \<Rightarrow>
             (let w3 = w2\<lparr>heap := (heap w2)(a := (heap w2 a)(key \<mapsto> val))\<rparr>;
                  (r, w4) = save d2 w3
              in (r, d2, w4)))"

text \<open>
  \<^verbatim>\<open>clear_value\<close>: returns at once when the key is not in the cached dict; otherwise
  \<^verbatim>\<open>pop\<close> (which raises \<^verbatim>\<open>KeyError\<close> on a missing key) and save.
\<close>

definition clear_value ::
    "string \<Rightarrow> delegate \<Rightarrow> world \<Rightarrow> (error + unit) \<times> delegate \<times> world" where
  "clear_value key d w =
     (case secret_value d w of
        (None, d1, w1) \<Rightarrow> (Inl AttributeError, d1, w1)
      | (Some a, d1, w1) \<Rightarrow>
          if heap w1 a key = None then (Inr (), d1, w1)
          else (case secret_value d1 w1 of
                  (None, d2, w2) \<Rightarrow> (Inl AttributeError, d2, w2)
                | (Some b, d2, w2) \<Rightarrow>
                    if heap w2 b key = None then (Inl (KeyError key), d2, w2)
                    else (let w3 = w2\<lparr>heap := (heap w2)(b := (heap w2 b)(key := None))\<rparr>;
                              (r, w4) = save d2 w3
                          in (r, d2, w4))))"

text \<open>
  \<^verbatim>\<open>keys\<close> and \<^verbatim>\<open>items\<close> return \<^verbatim>\<open>dict.keys()\<close> and \<^verbatim>\<open>dict.items()\<close> of the cached
  dict: a view object that refers to the dict object and reads it when it is enumerated.
\<close>

datatype view = KeysView addr | ItemsView addr

definition keys :: "delegate \<Rightarrow> world \<Rightarrow> (error + view) \<times> delegate \<times> world" where
  "keys d w =
     (case secret_value d w of
        (None, d1, w1) \<Rightarrow> (Inl AttributeError, d1, w1)
      | (Some a, d1, w1) \<Rightarrow> (Inr (KeysView a), d1, w1))"

definition items :: "delegate \<Rightarrow> world \<Rightarrow> (error + view) \<times> delegate \<times> world" where
  "items d w =
     (case secret_value d w of
        (None, d1, w1) \<Rightarrow> (Inl AttributeError, d1, w1)
      | (Some a, d1, w1) \<Rightarrow> (Inr (ItemsView a), d1, w1))"

text \<open>
  What a view shows of a dict, and enumerating a view in a world: the view reads the dict
  object it refers to as that object is at the moment of the enumeration.
\<close>

datatype listing = Keys "string set" | Items "(string \<times> string) set"

fun view_addr :: "view \<Rightarrow> addr" where
  "view_addr (KeysView a) = a"
| "view_addr (ItemsView a) = a"

fun listing_of :: "view \<Rightarrow> dict \<Rightarrow> listing" where
  "listing_of (KeysView a) m = Keys (dom m)"
| "listing_of (ItemsView a) m = Items (Map.graph m)"

definition enumerate_view :: "view \<Rightarrow> world \<Rightarrow> listing" where
  "enumerate_view v w = listing_of v (heap w (view_addr v))"

subsection \<open>Sequences of calls\<close>

text \<open>
  The calls a client makes on one delegate, one after the other. A call that raises leaves
  the delegate and the world as they are at the raise, and the client goes on from there.
  \<open>cleared cs m\<close> is the map \<open>m\<close> without the keys that the calls \<open>cs\<close> clear.
\<close>

datatype call =
    Get string "string option"
  | Set string string
  | Clear string
  | GetKeys
  | GetItems

fun perform :: "call \<Rightarrow> delegate \<times> world \<Rightarrow> delegate \<times> world" where
  "perform (Get key dflt) (d, w) = snd (get_secure_value key dflt d w)"
| "perform (Set key val) (d, w) = snd (set_secure_value key val d w)"
| "perform (Clear key) (d, w) = snd (clear_value key d w)"
| "perform GetKeys (d, w) = snd (keys d w)"
| "perform GetItems (d, w) = snd (items d w)"

fun run :: "call list \<Rightarrow> delegate \<times> world \<Rightarrow> delegate \<times> world" where
  "run [] s = s"
| "run (c # cs) s = run cs (perform c s)"

fun is_set :: "call \<Rightarrow> bool" where
  "is_set (Set key val) = True"
| "is_set c = False"

fun cleared :: "call list \<Rightarrow> dict \<Rightarrow> dict" where
  "cleared [] m = m"
| "cleared (Clear key # cs) m = cleared cs (m(key := None))"
| "cleared (c # cs) m = cleared cs m"

subsection \<open>What the delegate sees\<close>

text \<open>
  The map the delegate works on: the cached dict when there is one, else the remote record
  that the next access would load.
\<close>

definition current_map :: "delegate \<Rightarrow> world \<Rightarrow> dict" where
  "current_map d w =
     (case cached_value d of None \<Rightarrow> record_of w (name d) | Some a \<Rightarrow> heap w a)"

text \<open>Addresses held by a delegate are addresses of allocated objects.\<close>

definition wf :: "delegate \<Rightarrow> world \<Rightarrow> bool" where
  "wf d w = (case cached_value d of None \<Rightarrow> True | Some a \<Rightarrow> a < fresh w)"

subsection \<open>Concrete states used below\<close>

text \<open>A world in which no dict object exists yet and nothing has been sent.\<close>

definition start_world :: "(string \<rightharpoonup> dict) \<Rightarrow> world" where
  "start_world db = \<lparr>redis = db, heap = (\<lambda>_. Map.empty), fresh = 0, wire = []\<rparr>"

text \<open>
  The scenario of two instances on one record: instance A reads the record \<open>{a: 1}\<close>, then
  a second instance B of the same name sets \<open>b\<close> to \<open>2\<close>.
\<close>

definition scenario_loaded :: "delegate \<times> world" where
  "scenario_loaded =
     snd (get_secure_value ''a'' None (init ''rec'')
            (start_world [''rec'' \<mapsto> [''a'' \<mapsto> ''1'']]))"

definition scenario_other :: "delegate \<times> world" where
  "scenario_other =
     snd (set_secure_value ''b'' ''2'' (init ''rec'') (snd scenario_loaded))"

text \<open>
  A delegate whose cached dict \<open>{a: 1, b: 2}\<close> is older than the remote record
  \<open>{a: 1, b: 9}\<close>: another writer has changed \<open>b\<close> since the load.
\<close>

definition stale_delegate :: delegate where
  "stale_delegate = \<lparr>name = ''rec'', cached_value = Some 0\<rparr>"

definition stale_world :: world where
  "stale_world =
     \<lparr>redis = [''rec'' \<mapsto> [''a'' \<mapsto> ''1'', ''b'' \<mapsto> ''9'']],
      heap = (\<lambda>_. Map.empty)(0 := [''a'' \<mapsto> ''1'', ''b'' \<mapsto> ''2'']),
      fresh = 1,
      wire = [HGETALL ''rec'']\<rparr>"

text \<open>
  A new delegate on a record with two fields clears \<open>a\<close>, and later sets \<open>c\<close>.
\<close>

definition two_key_world :: world where
  "two_key_world = start_world [''rec'' \<mapsto> [''a'' \<mapsto> ''1'', ''b'' \<mapsto> ''2'']]"

definition after_clear :: "delegate \<times> world" where
  "after_clear = snd (clear_value ''a'' (init ''rec'') two_key_world)"

definition after_clear_set :: "delegate \<times> world" where
  "after_clear_set = snd (set_secure_value ''c'' ''3'' (fst after_clear) (snd after_clear))"

text \<open>
  A delegate whose cached dict \<open>{a: 1}\<close> has fewer fields than the remote record
  \<open>{a: 1, b: 2}\<close>: the state in which \<^verbatim>\<open>clear_value("b")\<close>, called on a new delegate
  over that record, calls \<^verbatim>\<open>_save\<close>.
\<close>

definition smaller_cache_world :: world where
  "smaller_cache_world =
     \<lparr>redis = [''rec'' \<mapsto> [''a'' \<mapsto> ''1'', ''b'' \<mapsto> ''2'']],
      heap = (\<lambda>_. Map.empty)(0 := [''a'' \<mapsto> ''1'']),
      fresh = 1,
      wire = [HGETALL ''rec'']\<rparr>"

definition loaded_delegate :: delegate where
  "loaded_delegate = \<lparr>name = ''rec'', cached_value = Some 0\<rparr>"

text \<open>A new delegate on the record \<open>{a: 1}\<close> asks for \<^verbatim>\<open>keys()\<close>, then sets \<open>c\<close>.\<close>

definition one_key_world :: world where
  "one_key_world = start_world [''rec'' \<mapsto> [''a'' \<mapsto> ''1'']]"

definition viewer_after_keys :: "delegate \<times> world" where
  "viewer_after_keys = snd (keys (init ''rec'') one_key_world)"

definition viewer_after_set :: "delegate \<times> world" where
  "viewer_after_set =
     snd (set_secure_value ''c'' ''3'' (fst viewer_after_keys) (snd viewer_after_keys))"

subsection \<open>Basic facts\<close>

lemma map_add_self: "(m :: 'a \<rightharpoonup> 'b) ++ m = m"
  by (rule ext) (simp add: map_add_def split: option.split)

lemma pop_only_key: "dom m = {k} \<Longrightarrow> m(k := None) = Map.empty"
proof -
  assume "dom m = {k}"
  then have "dom (m(k := None)) = {}" by simp
  then show ?thesis by (simp only: dom_eq_empty_conv)
qed

lemma record_of_frame [simp]:
  "record_of (w\<lparr>heap := h\<rparr>) n = record_of w n"
  "record_of (w\<lparr>fresh := f\<rparr>) n = record_of w n"
  "record_of (w\<lparr>wire := c\<rparr>) n = record_of w n"
  by (simp_all add: record_of_def)

lemma record_of_written [simp]:
  "record_of (w\<lparr>redis := (redis w)(n \<mapsto> m)\<rparr>) n = m"
  by (simp add: record_of_def)

lemma load_cached: "cached_value (fst (load d w)) = Some (fresh w)"
  by (simp add: load_def hgetall_def Let_def)

lemma load_redis: "redis (snd (load d w)) = redis w"
  by (simp add: load_def hgetall_def Let_def)

lemma load_wire: "wire (snd (load d w)) = wire w @ [HGETALL (name d)]"
  by (simp add: load_def hgetall_def Let_def)

lemma load_wf: "wf (fst (load d w)) (snd (load d w))"
  by (simp add: wf_def load_def hgetall_def Let_def)

lemma load_current_map:
  "current_map (fst (load d w)) (snd (load d w)) = record_of w (name d)"
  by (simp add: current_map_def load_def hgetall_def Let_def)

text \<open>
  \<^verbatim>\<open>set_secure_value\<close> in closed form: it never fails (the dict it writes holds at least
  the new item), sends a read and then a write, and leaves the delegate on a new dict
  object.
\<close>

lemma set_secure_value_eq:
  "set_secure_value k v d w =
     (Inr (), d\<lparr>cached_value := Some (fresh w)\<rparr>,
      w\<lparr>redis := (redis w)(name d \<mapsto> (record_of w (name d))(k \<mapsto> v)),
        heap := (heap w)(fresh w := (record_of w (name d))(k \<mapsto> v)),
        fresh := Suc (fresh w),
        wire := wire w @ [HGETALL (name d),
                          HSET (name d) ((record_of w (name d))(k \<mapsto> v))]\<rparr>)"
  by (simp add: set_secure_value_def load_def hgetall_def secret_value_def save_def hset_def
      map_add_self Let_def)

lemma set_secure_value_wf:
  "wf (fst (snd (set_secure_value k v d w))) (snd (snd (set_secure_value k v d w)))"
  by (simp add: set_secure_value_eq wf_def)

text \<open>
  The methods keep \<open>wf\<close>: a delegate never holds an address that is not allocated
  (\<^verbatim>\<open>_load\<close> and \<^verbatim>\<open>set_secure_value\<close> establish it from any state).
\<close>

lemma secret_value_wf:
  "wf d w \<Longrightarrow> wf (fst (snd (secret_value d w))) (snd (snd (secret_value d w)))"
  by (cases "cached_value d") (simp_all add: secret_value_def load_wf case_prod_beta)

lemma get_secure_value_wf:
  "wf d w \<Longrightarrow>
     wf (fst (snd (get_secure_value k dflt d w))) (snd (snd (get_secure_value k dflt d w)))"
  using secret_value_wf [of d w]
  by (auto simp: get_secure_value_def split: prod.splits option.splits)

lemma keys_wf:
  "wf d w \<Longrightarrow> wf (fst (snd (keys d w))) (snd (snd (keys d w)))"
  using secret_value_wf [of d w]
  by (auto simp: keys_def split: prod.splits option.splits)

lemma items_wf:
  "wf d w \<Longrightarrow> wf (fst (snd (items d w))) (snd (snd (items d w)))"
  using secret_value_wf [of d w]
  by (auto simp: items_def split: prod.splits option.splits)

lemma clear_value_wf:
  "wf d w \<Longrightarrow> wf (fst (snd (clear_value k d w))) (snd (snd (clear_value k d w)))"
  by (cases "cached_value d")
     (simp_all add: clear_value_def secret_value_def load_def hgetall_def save_def hset_def
        wf_def Let_def)

lemma keys_eq:
  "keys d w = (Inr (KeysView (case cached_value d of None \<Rightarrow> fresh w | Some a \<Rightarrow> a)),
               if cached_value d = None then load d w else (d, w))"
  by (cases "cached_value d")
     (simp_all add: keys_def secret_value_def load_def hgetall_def Let_def)

lemma secret_value_after:
  assumes "wf d w"
  shows "\<exists>a. fst (secret_value d w) = Some a
           \<and> cached_value (fst (snd (secret_value d w))) = Some a
           \<and> a < fresh (snd (snd (secret_value d w)))
           \<and> heap (snd (snd (secret_value d w))) a = current_map d w"
proof (cases "cached_value d")
  case None
  then show ?thesis
    by (simp add: secret_value_def load_def hgetall_def current_map_def Let_def)
next
  case (Some a)
  with assms show ?thesis
    by (simp add: secret_value_def current_map_def wf_def)
qed

text \<open>\<^verbatim>\<open>clear_value\<close> works on the dict object that is cached, in place.\<close>

lemma clear_value_pops_in_place:
  assumes "cached_value d = Some a"
  shows "case clear_value k d w of (r, d2, w2) \<Rightarrow>
           d2 = d \<and> heap w2 = (heap w)(a := (heap w a)(k := None))"
proof (cases "heap w a k")
  case None
  then have "(heap w)(a := (heap w a)(k := None)) = heap w"
    by (simp add: fun_upd_idem)
  with None assms show ?thesis
    by (simp add: clear_value_def secret_value_def)
next
  case (Some v)
  with assms show ?thesis
    by (simp add: clear_value_def secret_value_def save_def hset_def Let_def
        split: prod.splits)
qed

text \<open>
  \<^verbatim>\<open>_save\<close> in closed form when a dict with at least one key is cached: the fields of the
  dict are merged into the remote record.
\<close>

lemma save_merges:
  assumes "cached_value d = Some a" and "dom (heap w a) \<noteq> {}"
  shows "save d w =
           (Inr (), w\<lparr>redis := (redis w)(name d \<mapsto> record_of w (name d) ++ heap w a),
                      wire := wire w @ [HSET (name d) (heap w a)]\<rparr>)"
  using assms by (simp add: save_def hset_def)

lemma run_append: "run (cs @ cs') s = run cs' (run cs s)"
  by (induction cs arbitrary: s) simp_all

text \<open>A call other than a set, on a delegate that has the dict object \<open>a\<close> cached.\<close>

lemma perform_in_place:
  assumes "cached_value d = Some a" and "\<not> is_set c"
  shows "cached_value (fst (perform c (d, w))) = Some a
         \<and> fresh (snd (perform c (d, w))) = fresh w
         \<and> heap (snd (perform c (d, w))) a = cleared [c] (heap w a)"
proof (cases c)
  case (Get key dflt)
  with assms show ?thesis by (simp add: get_secure_value_def secret_value_def)
next
  case (Set key val)
  with assms show ?thesis by simp
next
  case (Clear key)
  have "fresh (snd (snd (clear_value key d w))) = fresh w"
    using assms(1)
    by (simp add: clear_value_def secret_value_def save_def hset_def Let_def)
  with clear_value_pops_in_place [OF assms(1), where k = key and w = w] Clear assms(1)
  show ?thesis by (simp add: case_prod_beta)
next
  case GetKeys
  with assms show ?thesis by (simp add: keys_def secret_value_def)
next
  case GetItems
  with assms show ?thesis by (simp add: items_def secret_value_def)
qed

lemma run_in_place:
  assumes "cached_value d = Some a" and "\<forall>c \<in> set cs. \<not> is_set c"
  shows "cached_value (fst (run cs (d, w))) = Some a
         \<and> fresh (snd (run cs (d, w))) = fresh w
         \<and> heap (snd (run cs (d, w))) a = cleared cs (heap w a)"
  using assms
proof (induction cs arbitrary: d w)
  case Nil
  then show ?case by simp
next
  case (Cons c cs)
  obtain d1 w1 where p: "perform c (d, w) = (d1, w1)" by (cases "perform c (d, w)")
  from Cons.prems have nc: "\<not> is_set c" and ncs: "\<forall>c \<in> set cs. \<not> is_set c" by simp_all
  from perform_in_place [OF Cons.prems(1) nc, of w] p
  have c1: "cached_value d1 = Some a" and f1: "fresh w1 = fresh w"
    and h1: "heap w1 a = cleared [c] (heap w a)" by simp_all
  have cc: "cleared cs (cleared [c] (heap w a)) = cleared (c # cs) (heap w a)"
    by (cases c) simp_all
  from Cons.IH [OF c1 ncs, of w1] p f1 h1 cc show ?case by simp
qed

text \<open>Any call on a delegate that does not have the allocated dict object \<open>a\<close> cached.\<close>

lemma perform_elsewhere:
  assumes "cached_value d \<noteq> Some a" and "a < fresh w"
  shows "cached_value (fst (perform c (d, w))) \<noteq> Some a
         \<and> a < fresh (snd (perform c (d, w)))
         \<and> heap (snd (perform c (d, w))) a = heap w a"
proof (cases c)
  case (Get key dflt)
  with assms show ?thesis
    by (cases "cached_value d")
       (auto simp: get_secure_value_def secret_value_def load_def hgetall_def Let_def)
next
  case (Set key val)
  with assms show ?thesis by (auto simp: set_secure_value_eq)
next
  case (Clear key)
  with assms show ?thesis
    by (cases "cached_value d")
       (auto simp: clear_value_def secret_value_def load_def hgetall_def save_def hset_def
          Let_def)
next
  case GetKeys
  with assms show ?thesis
    by (cases "cached_value d") (auto simp: keys_def secret_value_def load_def hgetall_def Let_def)
next
  case GetItems
  with assms show ?thesis
    by (cases "cached_value d") (auto simp: items_def secret_value_def load_def hgetall_def Let_def)
qed

lemma run_elsewhere:
  assumes "cached_value d \<noteq> Some a" and "a < fresh w"
  shows "heap (snd (run cs (d, w))) a = heap w a"
  using assms
proof (induction cs arbitrary: d w)
  case Nil
  then show ?case by simp
next
  case (Cons c cs)
  obtain d1 w1 where p: "perform c (d, w) = (d1, w1)" by (cases "perform c (d, w)")
  from perform_elsewhere [OF Cons.prems, of c] p
  have "cached_value d1 \<noteq> Some a" and "a < fresh w1" and "heap w1 a = heap w a"
    by simp_all
  with Cons.IH [of d1 w1] p show ?case by simp
qed

lemma set_rebinds:
  assumes "cached_value d = Some a" and "a < fresh w"
  shows "cached_value (fst (perform (Set key val) (d, w))) \<noteq> Some a
         \<and> a < fresh (snd (perform (Set key val) (d, w)))
         \<and> heap (snd (perform (Set key val) (d, w))) a = heap w a"
  using assms by (auto simp: set_secure_value_eq)


section \<open>The claims\<close>

subsection \<open>Writing after a concurrent change\<close>

text \<open>
  C1. Whatever instance A has cached, and whatever the remote record holds when A calls
  \<^verbatim>\<open>set_secure_value(k, v)\<close> (so also after another writer has changed it since A's
  load): the call succeeds, and the remote record afterwards is the remote record as it
  was at the call, with every entry of the other writer, plus the new entry. A's dict is
  the same map. A's older view plays no part.
\<close>

theorem set_secure_value_keeps_concurrent_entries:
  "case set_secure_value k v d w of (r, d', w') \<Rightarrow>
     r = Inr ()
     \<and> record_of w' (name d) = (record_of w (name d))(k \<mapsto> v)
     \<and> current_map d' w' = (record_of w (name d))(k \<mapsto> v)"
  by (simp add: set_secure_value_eq current_map_def)

text \<open>
  The scenario of the claim: A has loaded \<open>{a: 1}\<close> and still holds it, B has made the
  record \<open>{a: 1, b: 2}\<close>, and A's \<^verbatim>\<open>set_secure_value("c", "3")\<close> leaves
  \<open>{a: 1, b: 2, c: 3}\<close>.
\<close>

theorem set_secure_value_keeps_concurrent_entries_witness:
  "current_map (fst scenario_loaded) (snd scenario_other) = [''a'' \<mapsto> ''1'']
   \<and> record_of (snd scenario_other) ''rec'' = [''a'' \<mapsto> ''1'', ''b'' \<mapsto> ''2'']
   \<and> fst (set_secure_value ''c'' ''3'' (fst scenario_loaded) (snd scenario_other))
       = Inr ()
   \<and> record_of (snd (snd (set_secure_value ''c'' ''3'' (fst scenario_loaded)
                             (snd scenario_other)))) ''rec''
       = [''a'' \<mapsto> ''1'', ''b'' \<mapsto> ''2'', ''c'' \<mapsto> ''3'']"
proof -
  have loaded: "fst scenario_loaded = \<lparr>name = ''rec'', cached_value = Some 0\<rparr>"
    by (simp add: scenario_loaded_def get_secure_value_def secret_value_def load_def
        hgetall_def start_world_def init_def Let_def)
  have heap0: "heap (snd scenario_other) 0 = [''a'' \<mapsto> ''1'']"
    by (simp add: scenario_other_def scenario_loaded_def set_secure_value_eq
        get_secure_value_def secret_value_def load_def hgetall_def start_world_def init_def
        record_of_def Let_def)
  have remote: "record_of (snd scenario_other) ''rec''
                 = [''a'' \<mapsto> ''1'', ''b'' \<mapsto> ''2'']"
    by (simp add: scenario_other_def scenario_loaded_def set_secure_value_eq
        get_secure_value_def secret_value_def load_def hgetall_def start_world_def init_def
        record_of_def Let_def)
  have view: "current_map (fst scenario_loaded) (snd scenario_other) = [''a'' \<mapsto> ''1'']"
    using heap0 by (simp add: loaded current_map_def)
  from set_secure_value_keeps_concurrent_entries
         [where k = "''c''" and v = "''3''" and d = "fst scenario_loaded"
            and w = "snd scenario_other"]
  have "fst (set_secure_value ''c'' ''3'' (fst scenario_loaded) (snd scenario_other))
          = Inr ()
        \<and> record_of (snd (snd (set_secure_value ''c'' ''3'' (fst scenario_loaded)
                             (snd scenario_other)))) ''rec''
          = (record_of (snd scenario_other) ''rec'')(''c'' \<mapsto> ''3'')"
    by (simp add: case_prod_beta loaded)
  with view remote show ?thesis by simp
qed

subsection \<open>Reloading before a write\<close>

text \<open>
  C2. The claim asks that both mutating operations reload the record before they change
  and write it. \<^verbatim>\<open>set_secure_value\<close> does (see \<open>set_secure_value_eq\<close>: a read is sent
  before the write, and the written map is built from what was read). \<^verbatim>\<open>clear_value\<close>
  does not: on a delegate that holds \<open>{a: 1, b: 2}\<close> while the remote record has become
  \<open>{a: 1, b: 9}\<close>, \<^verbatim>\<open>clear_value("a")\<close> sends no read, writes the cached \<open>{b: 2}\<close>, and the
  other writer's \<open>b = 9\<close> is replaced by the old \<open>2\<close>.
\<close>

theorem clear_value_writes_stale_cache:
  "wf stale_delegate stale_world
   \<and> record_of stale_world ''rec'' ''b'' = Some ''9''
   \<and> fst (clear_value ''a'' stale_delegate stale_world) = Inr ()
   \<and> wire (snd (snd (clear_value ''a'' stale_delegate stale_world)))
       = wire stale_world @ [HSET ''rec'' [''b'' \<mapsto> ''2'']]
   \<and> record_of (snd (snd (clear_value ''a'' stale_delegate stale_world))) ''rec'' ''b''
       = Some ''2''"
  by (simp add: stale_delegate_def stale_world_def wf_def clear_value_def secret_value_def
      save_def hset_def record_of_def Let_def)

subsection \<open>Removing a key\<close>

text \<open>
  C3. The claim asks that \<^verbatim>\<open>clear_value(k)\<close> on a present key removes the entry from the
  in-memory copy and from the remote record. On a new delegate over the record
  \<open>{a: 1, b: 2}\<close>, \<^verbatim>\<open>clear_value("a")\<close> returns normally and the in-memory copy no longer
  has \<open>a\<close>, but the write only sets the remaining field \<open>b\<close>: the remote record still
  holds \<open>a = 1\<close>. The same delegate reads \<open>a\<close> back after its next
  \<^verbatim>\<open>set_secure_value\<close>, which reloads the record.
\<close>

theorem clear_value_leaves_remote_field:
  "fst (clear_value ''a'' (init ''rec'') two_key_world) = Inr ()
   \<and> current_map (fst after_clear) (snd after_clear) = [''b'' \<mapsto> ''2'']
   \<and> record_of (snd after_clear) ''rec'' ''a'' = Some ''1''
   \<and> fst (get_secure_value ''a'' None (fst after_clear_set) (snd after_clear_set))
       = Inr (Some ''1'')"
proof -
  have pop: "[''a'' \<mapsto> ''1'', ''b'' \<mapsto> ''2''](''a'' := None) = [''b'' \<mapsto> ''2'']"
    by (rule ext) simp
  have c: "clear_value ''a'' (init ''rec'') two_key_world
             = (Inr (), \<lparr>name = ''rec'', cached_value = Some 0\<rparr>,
                \<lparr>redis = [''rec'' \<mapsto> [''a'' \<mapsto> ''1'', ''b'' \<mapsto> ''2'']],
                 heap = (\<lambda>_. Map.empty)(0 := [''b'' \<mapsto> ''2'']),
                 fresh = Suc 0,
                 wire = [HGETALL ''rec'', HSET ''rec'' [''b'' \<mapsto> ''2'']]\<rparr>)"
    by (simp add: two_key_world_def start_world_def init_def clear_value_def secret_value_def
        load_def hgetall_def save_def hset_def record_of_def Let_def pop)
  have g: "fst (get_secure_value ''a'' None (fst after_clear_set) (snd after_clear_set))
             = Inr (Some ''1'')"
    by (simp add: after_clear_set_def after_clear_def c set_secure_value_eq
        get_secure_value_def secret_value_def record_of_def)
  from c g show ?thesis
    by (simp add: after_clear_def current_map_def record_of_def)
qed

subsection \<open>The persist step\<close>

text \<open>
  C4. The claim asks that the persist step leaves the remote record equal to the in-memory
  map, with no remote field surviving that the in-memory map does not have. \<^verbatim>\<open>_save\<close>
  (``Persist any changes to the secret'') writes with \<^verbatim>\<open>hset\<close>, which sets fields and
  removes none. On a new delegate over the record \<open>{a: 1, b: 2}\<close>, \<^verbatim>\<open>clear_value("b")\<close>
  calls \<^verbatim>\<open>_save\<close> with the dict \<open>{a: 1}\<close> cached; the persist succeeds, and the remote
  record is still \<open>{a: 1, b: 2}\<close>, not the in-memory map.
\<close>

theorem save_leaves_remote_fields:
  "clear_value ''b'' (init ''rec'') two_key_world
     = (Inr (), loaded_delegate, snd (save loaded_delegate smaller_cache_world))
   \<and> fst (save loaded_delegate smaller_cache_world) = Inr ()
   \<and> heap (snd (save loaded_delegate smaller_cache_world)) 0 = [''a'' \<mapsto> ''1'']
   \<and> record_of (snd (save loaded_delegate smaller_cache_world)) ''rec''
       = [''a'' \<mapsto> ''1'', ''b'' \<mapsto> ''2'']
   \<and> record_of (snd (save loaded_delegate smaller_cache_world)) ''rec''
       \<noteq> heap (snd (save loaded_delegate smaller_cache_world)) 0"
proof -
  have pop: "[''a'' \<mapsto> ''1'', ''b'' \<mapsto> ''2''](''b'' := None) = [''a'' \<mapsto> ''1'']"
    by (rule ext) simp
  have c: "cached_value loaded_delegate = Some 0" by (simp add: loaded_delegate_def)
  have ne: "dom (heap smaller_cache_world 0) \<noteq> {}" by (simp add: smaller_cache_world_def)
  have merged: "[''b'' \<mapsto> ''2'', ''a'' \<mapsto> ''1'']
                  = [''a'' \<mapsto> ''1'', ''b'' \<mapsto> ''2'']"
    by (rule ext) simp
  have s: "save loaded_delegate smaller_cache_world
             = (Inr (), \<lparr>redis = [''rec'' \<mapsto> [''a'' \<mapsto> ''1'', ''b'' \<mapsto> ''2'']],
                         heap = (\<lambda>_. Map.empty)(0 := [''a'' \<mapsto> ''1'']),
                         fresh = 1,
                         wire = [HGETALL ''rec'', HSET ''rec'' [''a'' \<mapsto> ''1'']]\<rparr>)"
    unfolding save_merges [OF c ne]
    by (simp add: loaded_delegate_def smaller_cache_world_def record_of_def merged)
  have cl: "clear_value ''b'' (init ''rec'') two_key_world
              = (Inr (), loaded_delegate, snd (save loaded_delegate smaller_cache_world))"
    unfolding s
    by (simp add: two_key_world_def start_world_def init_def loaded_delegate_def
        clear_value_def secret_value_def load_def hgetall_def save_def hset_def record_of_def
        Let_def pop merged)
  have r: "record_of (snd (save loaded_delegate smaller_cache_world)) ''rec''
             = [''a'' \<mapsto> ''1'', ''b'' \<mapsto> ''2'']"
    unfolding s by (simp add: record_of_def)
  have h: "heap (snd (save loaded_delegate smaller_cache_world)) 0 = [''a'' \<mapsto> ''1'']"
    unfolding s by simp
  have "[''a'' \<mapsto> ''1'', ''b'' \<mapsto> ''2''] ''b'' \<noteq> [''a'' \<mapsto> ''1''] ''b''" by simp
  then have d: "[''a'' \<mapsto> ''1'', ''b'' \<mapsto> ''2''] \<noteq> [''a'' \<mapsto> ''1'']" by metis
  from cl s r h d show ?thesis by simp
qed

subsection \<open>Clearing everything\<close>

text \<open>
  C5. The claim asks that \<^verbatim>\<open>clear_all_values()\<close> on an adapter fails with the ``not
  allowed'' error and changes nothing. The body raises that error
  (\<^verbatim>\<open>NotImplementedError\<close>), but the function is declared without \<^verbatim>\<open>self\<close>, so the
  call on an instance never reaches the body: for every delegate and world it fails with
  the interpreter's \<^verbatim>\<open>TypeError\<close> for one argument too many. Delegate and world are as
  before.
\<close>

theorem clear_all_values_on_instance:
  "call_clear_all_values d w = (Inl (TypeError 1), d, w)
   \<and> fst (call_clear_all_values d w) \<noteq> Inl (NotImplementedError ''Clear all values not allowed'')
   \<and> clear_all_values [] = Inl (NotImplementedError ''Clear all values not allowed'')"
  by (simp add: call_clear_all_values_def clear_all_values_def)

subsection \<open>Views\<close>

text \<open>
  C6, as stated, fails for \<^verbatim>\<open>set_secure_value\<close>. A new delegate on the record \<open>{a: 1}\<close>
  returns from \<^verbatim>\<open>keys()\<close> a view of the dict object at address 0. After
  \<^verbatim>\<open>set_secure_value("c", "3")\<close> the delegate's cache is another dict object, with the
  keys \<open>a\<close> and \<open>c\<close>, and the earlier view still enumerates \<open>a\<close> alone.
\<close>

theorem view_after_set_counterexample:
  "fst (keys (init ''rec'') one_key_world) = Inr (KeysView 0)
   \<and> listing_of (KeysView 0) (current_map (fst viewer_after_set) (snd viewer_after_set))
       = Keys {''a'', ''c''}
   \<and> enumerate_view (KeysView 0) (snd viewer_after_set) = Keys {''a''}"
proof -
  have k: "keys (init ''rec'') one_key_world
             = (Inr (KeysView 0), \<lparr>name = ''rec'', cached_value = Some 0\<rparr>,
                \<lparr>redis = [''rec'' \<mapsto> [''a'' \<mapsto> ''1'']],
                 heap = (\<lambda>_. Map.empty)(0 := [''a'' \<mapsto> ''1'']),
                 fresh = Suc 0, wire = [HGETALL ''rec'']\<rparr>)"
    by (simp add: keys_eq init_def one_key_world_def start_world_def load_def hgetall_def
        record_of_def Let_def)
  have c: "current_map (fst viewer_after_set) (snd viewer_after_set)
             = [''a'' \<mapsto> ''1'', ''c'' \<mapsto> ''3'']"
    by (simp add: viewer_after_set_def viewer_after_keys_def k set_secure_value_eq
        current_map_def record_of_def)
  have h: "heap (snd viewer_after_set) 0 = [''a'' \<mapsto> ''1'']"
    by (simp add: viewer_after_set_def viewer_after_keys_def k set_secure_value_eq)
  have "dom [''a'' \<mapsto> ''1'', ''c'' \<mapsto> ''3''] = {''a'', ''c''}" by auto
  with k c h show ?thesis by (simp add: enumerate_view_def)
qed

text \<open>
  C6, amended. \<^verbatim>\<open>keys()\<close> and \<^verbatim>\<open>items()\<close> return a view of the dict object that is
  cached at the call (after a lazy load when nothing was cached), not a snapshot. After any
  later calls on the delegate among which there is no \<^verbatim>\<open>set_secure_value\<close>, the view
  shows the delegate's current map, which is the map at the call without the keys cleared
  since: \<^verbatim>\<open>clear_value\<close> changes that dict object in place. \<^verbatim>\<open>set_secure_value\<close> binds
  the cache to a newly loaded dict object and the old one is never changed again: once a
  \<^verbatim>\<open>set_secure_value\<close> has been called, the view shows, whatever calls follow, the map as
  it was just before the first \<^verbatim>\<open>set_secure_value\<close>.
\<close>

theorem view_follows_dict_object:
  assumes "wf d w" and "acc = keys \<or> acc = items" and "\<forall>c \<in> set cs. \<not> is_set c"
  shows "case acc d w of (r, s1) \<Rightarrow>
           (case r of Inl e \<Rightarrow> False | Inr v \<Rightarrow>
              (case run cs s1 of (d2, w2) \<Rightarrow>
                 enumerate_view v w2 = listing_of v (current_map d2 w2)
                 \<and> current_map d2 w2 = cleared cs (current_map d w))
              \<and> enumerate_view v (snd (run (cs @ Set key val # cs') s1))
                  = listing_of v (cleared cs (current_map d w)))"
proof -
  obtain a d1 w1 where sv: "secret_value d w = (Some a, d1, w1)"
    and c: "cached_value d1 = Some a" and lt: "a < fresh w1"
    and h: "heap w1 a = current_map d w"
    using secret_value_after [OF assms(1)] by (cases "secret_value d w") auto
  define v where "v = (if acc = keys then KeysView a else ItemsView a)"
  have va: "view_addr v = a" by (simp add: v_def)
  have acc: "acc d w = (Inr v, d1, w1)"
    using assms(2) sv by (auto simp: v_def keys_def items_def)
  obtain d2 w2 where r2: "run cs (d1, w1) = (d2, w2)" by (cases "run cs (d1, w1)")
  from run_in_place [OF c assms(3), of w1] r2 h
  have c2: "cached_value d2 = Some a" and f2: "fresh w2 = fresh w1"
    and h2: "heap w2 a = cleared cs (current_map d w)" by simp_all
  from c2 h2 have m2: "current_map d2 w2 = cleared cs (current_map d w)"
    by (simp add: current_map_def)
  from va h2 m2 have live: "enumerate_view v w2 = listing_of v (current_map d2 w2)"
    by (simp add: enumerate_view_def)
  obtain d3 w3 where r3: "perform (Set key val) (d2, w2) = (d3, w3)"
    by (cases "perform (Set key val) (d2, w2)")
  from lt f2 have lt2: "a < fresh w2" by simp
  from set_rebinds [OF c2 lt2, of key val] r3
  have c3: "cached_value d3 \<noteq> Some a" and lt3: "a < fresh w3" and h3: "heap w3 a = heap w2 a"
    by simp_all
  have "run (cs @ Set key val # cs') (d1, w1) = run cs' (d3, w3)"
    using r3 by (simp add: run_append r2)
  with run_elsewhere [OF c3 lt3, of cs'] h3 h2
  have "heap (snd (run (cs @ Set key val # cs') (d1, w1))) a = cleared cs (current_map d w)"
    by simp
  with va have frozen: "enumerate_view v (snd (run (cs @ Set key val # cs') (d1, w1)))
                  = listing_of v (cleared cs (current_map d w))"
    by (simp add: enumerate_view_def)
  show ?thesis
    unfolding acc using r2 live m2 frozen by simp
qed

text \<open>
  On the record \<open>{a: 1, b: 2}\<close>: after \<^verbatim>\<open>keys()\<close> and \<^verbatim>\<open>clear_value("a")\<close> the view
  shows \<open>b\<close>, and it still shows \<open>b\<close> alone after \<^verbatim>\<open>set_secure_value("c", "3")\<close> and
  \<^verbatim>\<open>clear_value("b")\<close>.
\<close>

theorem view_follows_dict_object_witness:
  "wf (init ''rec'') two_key_world
   \<and> (keys = keys \<or> keys = items)
   \<and> \<not> is_set (Clear ''a'')
   \<and> fst (keys (init ''rec'') two_key_world) = Inr (KeysView 0)
   \<and> enumerate_view (KeysView 0)
        (snd (run [Clear ''a''] (snd (keys (init ''rec'') two_key_world))))
       = Keys {''b''}
   \<and> enumerate_view (KeysView 0)
        (snd (run ([Clear ''a''] @ Set ''c'' ''3'' # [Clear ''b''])
                (snd (keys (init ''rec'') two_key_world))))
       = Keys {''b''}"
proof -
  have h1: "wf (init ''rec'') two_key_world" by (simp add: wf_def init_def)
  have h2: "keys = keys \<or> keys = items" by simp
  have h3: "\<forall>c \<in> set [Clear ''a'']. \<not> is_set c" by simp
  have k: "fst (keys (init ''rec'') two_key_world) = Inr (KeysView 0)"
    by (simp add: keys_eq init_def two_key_world_def start_world_def)
  have m: "current_map (init ''rec'') two_key_world = [''a'' \<mapsto> ''1'', ''b'' \<mapsto> ''2'']"
    by (simp add: current_map_def init_def two_key_world_def start_world_def record_of_def)
  have l: "listing_of (KeysView 0) (cleared [Clear ''a''] [''a'' \<mapsto> ''1'', ''b'' \<mapsto> ''2''])
             = Keys {''b''}"
    by auto
  from view_follows_dict_object
         [OF h1 h2 h3, where key = "''c''" and val = "''3''" and cs' = "[Clear ''b'']"] k m l
  have "enumerate_view (KeysView 0)
          (snd (run [Clear ''a''] (snd (keys (init ''rec'') two_key_world)))) = Keys {''b''}
        \<and> enumerate_view (KeysView 0)
          (snd (run ([Clear ''a''] @ Set ''c'' ''3'' # [Clear ''b''])
                (snd (keys (init ''rec'') two_key_world)))) = Keys {''b''}"
    by (simp add: case_prod_beta split: sum.splits)
  with h1 h2 k show ?thesis by simp
qed

subsection \<open>Reading\<close>

text \<open>
  C7. For every key \<open>k\<close> and value \<open>v\<close>, in every state: \<^verbatim>\<open>set_secure_value(k, v)\<close>
  succeeds, and \<^verbatim>\<open>get_secure_value(k)\<close> on the delegate and world it leaves returns \<open>v\<close>,
  whatever the default.
\<close>

theorem set_then_get:
  "case set_secure_value k v d w of (r, d1, w1) \<Rightarrow>
     r = Inr () \<and> fst (get_secure_value k dflt d1 w1) = Inr (Some v)"
  by (simp add: set_secure_value_eq get_secure_value_def secret_value_def)

text \<open>
  C8. When the key \<open>k\<close> is not in the record as the delegate has it (its cached dict, or
  the remote record when nothing is cached yet), \<^verbatim>\<open>get_secure_value(k, default=d)\<close>
  returns \<open>d\<close> and raises nothing. The delegate and the world are untouched when a dict was
  cached; otherwise they are exactly what \<^verbatim>\<open>_load\<close> leaves.
\<close>

theorem get_missing_returns_default:
  assumes "current_map d w k = None"
  shows "get_secure_value k dflt d w =
           (Inr dflt, if cached_value d = None then load d w else (d, w))"
  using assms
  by (cases "cached_value d")
     (simp_all add: get_secure_value_def secret_value_def current_map_def load_def
        hgetall_def Let_def)

theorem get_missing_returns_default_witness:
  "current_map (init ''rec'') one_key_world ''zz'' = None
   \<and> get_secure_value ''zz'' (Some ''fallback'') (init ''rec'') one_key_world
       = (Inr (Some ''fallback''), load (init ''rec'') one_key_world)
   \<and> redis (snd (load (init ''rec'') one_key_world)) = redis one_key_world"
proof -
  have h: "current_map (init ''rec'') one_key_world ''zz'' = None"
    by (simp add: current_map_def init_def one_key_world_def start_world_def record_of_def)
  have c: "cached_value (init ''rec'') = None" by (simp add: init_def)
  from get_missing_returns_default [OF h, of "Some ''fallback''"] c h
  show ?thesis by (simp add: load_redis)
qed

subsection \<open>Clearing an absent key, and the last key\<close>

text \<open>
  C9. When the key \<open>k\<close> is not in the record as the delegate has it, \<^verbatim>\<open>clear_value(k)\<close>
  returns normally; the delegate and world are untouched when a dict was cached and are
  what \<^verbatim>\<open>_load\<close> leaves otherwise. So the remote record is unchanged, the delegate's map
  is unchanged, and nothing is written: at most the read of the lazy load is sent.
\<close>

theorem clear_value_absent_noop:
  assumes "current_map d w k = None"
  shows "case clear_value k d w of (r, d', w') \<Rightarrow>
           r = Inr ()
           \<and> (d', w') = (if cached_value d = None then load d w else (d, w))
           \<and> redis w' = redis w
           \<and> current_map d' w' = current_map d w
           \<and> wire w' = wire w @ (if cached_value d = None then [HGETALL (name d)] else [])"
  using assms
  by (cases "cached_value d")
     (simp_all add: clear_value_def secret_value_def current_map_def load_def
        hgetall_def Let_def)

theorem clear_value_absent_noop_witness:
  "current_map stale_delegate stale_world ''zz'' = None
   \<and> clear_value ''zz'' stale_delegate stale_world = (Inr (), stale_delegate, stale_world)"
proof -
  have h: "current_map stale_delegate stale_world ''zz'' = None"
    by (simp add: current_map_def stale_delegate_def stale_world_def)
  have c: "cached_value stale_delegate \<noteq> None" by (simp add: stale_delegate_def)
  from clear_value_absent_noop [OF h] c h
  show ?thesis by (simp add: case_prod_beta prod_eq_iff)
qed

text \<open>
  C10. When the record as the delegate has it holds exactly the key \<open>k\<close>,
  \<^verbatim>\<open>clear_value(k)\<close> empties the in-memory map and hands the empty map to the write
  primitive, which refuses it: the call ends with the store client's \<^verbatim>\<open>DataError\<close>.
  Nothing is written, and the remote record is as before.
\<close>

theorem clear_value_last_key_raises:
  assumes "dom (current_map d w) = {k}"
  shows "case clear_value k d w of (r, d', w') \<Rightarrow>
           r = Inl (DataError ''hset with no key value pairs'')
           \<and> current_map d' w' = Map.empty
           \<and> redis w' = redis w
           \<and> wire w' = wire w @ (if cached_value d = None then [HGETALL (name d)] else [])"
proof -
  from assms have k: "current_map d w k \<noteq> None" by blast
  show ?thesis
  proof (cases "cached_value d")
    case None
    with assms k show ?thesis
      by (simp add: clear_value_def secret_value_def current_map_def load_def hgetall_def
          save_def hset_def Let_def pop_only_key)
  next
    case (Some a)
    with assms k show ?thesis
      by (simp add: clear_value_def secret_value_def current_map_def
          save_def hset_def Let_def pop_only_key)
  qed
qed

theorem clear_value_last_key_raises_witness:
  "dom (current_map (init ''rec'') one_key_world) = {''a''}
   \<and> fst (clear_value ''a'' (init ''rec'') one_key_world)
       = Inl (DataError ''hset with no key value pairs'')
   \<and> record_of (snd (snd (clear_value ''a'' (init ''rec'') one_key_world))) ''rec''
       = [''a'' \<mapsto> ''1'']"
proof -
  have h: "dom (current_map (init ''rec'') one_key_world) = {''a''}"
    by (simp add: current_map_def init_def one_key_world_def start_world_def record_of_def)
  have r: "record_of one_key_world ''rec'' = [''a'' \<mapsto> ''1'']"
    by (simp add: one_key_world_def start_world_def record_of_def)
  from clear_value_last_key_raises [OF h] h r
  show ?thesis by (simp add: case_prod_beta record_of_def)
qed

end
